theory Spec2Isabelle
  imports Complex_Main "HOL-Library.Multiset"
begin

section \<open>PT5 uploader: a shallow embedding of \<^verbatim>\<open>pt5_uploader.py\<close>\<close>

text \<open>
  The script enumerates the files below a source path, joins a key prefix with each
  relative key, uploads every file through a pool of worker threads and prints a
  summary. The embedding follows the POSIX flavour of \<^verbatim>\<open>pathlib\<close> and
  \<^verbatim>\<open>os.path\<close> of Python 3.11. Everything outside the process (the answers of the
  file system, the storage service, the clock, the order in which workers finish) is
  a field of the record \<open>world\<close>; an exception is a value of type \<open>exn\<close>.
\<close>

subsection \<open>Exceptions\<close>

datatype exn =
    FileNotFoundError
  | PermissionError
  | OSError
  | RecursionError
  | NoCredentialsError
  | ClientError "string option"
  | KeyError
  | ValueError
  | TypeError
  | ZeroDivisionError
  | OtherException

text \<open>
  \<open>OSError\<close> stands for the errors of the operating system other than the two named
  ones. \<open>ClientError code\<close> carries \<^verbatim>\<open>e.response['Error']['Code']\<close>; it is \<open>None\<close> when the
  response has no such entry, and the subscript raises \<^verbatim>\<open>KeyError\<close>.
\<close>

subsection \<open>Paths\<close>

text \<open>
  A path is the tuple \<^verbatim>\<open>parts\<close> of a \<^verbatim>\<open>pathlib\<close> path: the root (\<^verbatim>\<open>/\<close> or \<^verbatim>\<open>//\<close>) if the
  path has one, then its components. \<open>Path\<close> parses a string as \<^verbatim>\<open>Path(source)\<close> does:
  empty components and \<^verbatim>\<open>.\<close> are dropped, \<^verbatim>\<open>..\<close> is kept, and exactly two leading
  slashes make the root \<^verbatim>\<open>//\<close>.
\<close>

type_synonym path = "string list"

fun split_sep :: "string \<Rightarrow> string list" where
  "split_sep [] = [[]]"
| "split_sep (c # cs) =
     (if c = CHR ''/'' then [] # split_sep cs
      else (case split_sep cs of [] \<Rightarrow> [[c]] | h # t \<Rightarrow> (c # h) # t))"

definition path_root :: "string \<Rightarrow> path" where
  "path_root s =
     (let n = length (takeWhile (\<lambda>c. c = CHR ''/'') s)
      in if n = 0 then [] else if n = 2 then [''//''] else [''/''])"

definition Path :: "string \<Rightarrow> path" where
  "Path s = path_root s @ filter (\<lambda>x. x \<noteq> [] \<and> x \<noteq> ''.'') (split_sep s)"

definition is_rooted :: "path \<Rightarrow> bool" where
  "is_rooted p = (case p of [] \<Rightarrow> False | r # ps \<Rightarrow> r = ''/'' \<or> r = ''//'')"

text \<open>\<^verbatim>\<open>Path.name\<close>: the last component, the empty string for a path that has none.\<close>

definition path_name :: "path \<Rightarrow> string" where
  "path_name p = (if p = [] \<or> p = [''/''] \<or> p = [''//''] then [] else last p)"

text \<open>\<^verbatim>\<open>str(path)\<close>: the components joined by \<^verbatim>\<open>/\<close> after the root, a dot for the empty
  path.\<close>

fun join_parts :: "string list \<Rightarrow> string" where
  "join_parts [] = []"
| "join_parts [n] = n"
| "join_parts (n # m # ns) = n @ ''/'' @ join_parts (m # ns)"

definition path_str :: "path \<Rightarrow> string" where
  "path_str p =
     (if p = [] then ''.''
      else if is_rooted p then hd p @ join_parts (tl p)
      else join_parts p)"

text \<open>\<^verbatim>\<open>file_path.relative_to(source_path)\<close> raises \<^verbatim>\<open>ValueError\<close> unless the parts of
  the source path begin the parts of the file path; relative to the empty path, a
  rooted path raises it too.\<close>

definition relative_to :: "path \<Rightarrow> path \<Rightarrow> exn + path" where
  "relative_to fp sp =
     (if (if sp = [] then is_rooted fp else take (length sp) fp \<noteq> sp) then Inl ValueError
      else Inr (drop (length sp) fp))"

subsection \<open>The file system\<close>

text \<open>
  The answers of the operating system. \<open>stat p\<close> is \<^verbatim>\<open>os.stat\<close> as \<^verbatim>\<open>Path.exists\<close>,
  \<^verbatim>\<open>Path.is_file\<close> and \<^verbatim>\<open>Path.is_dir\<close> see it: \<open>Inr None\<close> when the call fails with an error
  that \<^verbatim>\<open>pathlib\<close> ignores (no such file, not a directory, a link loop), \<open>Inl e\<close> when it
  fails with any other error, which these methods raise again, and the kind of the
  file otherwise (links are followed). \<open>scandir p\<close> lists a directory, or gives the
  error of the call: for each entry its name and the answer of
  \<^verbatim>\<open>entry.is_dir(follow_symlinks=False)\<close>, whether the entry itself is a directory
  (\<open>Inr False\<close> also when the answer fails with an error that \<^verbatim>\<open>pathlib\<close> ignores,
  \<open>Inl e\<close> when it fails with another one). \<open>recursion_limit\<close> is the number of
  directory levels that the recursive generator of \<^verbatim>\<open>glob\<close> can nest before the
  interpreter raises \<^verbatim>\<open>RecursionError\<close>.
\<close>

datatype kind = Regular | Directory | Other

record filesystem =
  stat :: "path \<Rightarrow> exn + kind option"
  scandir :: "path \<Rightarrow> exn + (string \<times> (exn + bool)) list"
  recursion_limit :: nat

definition path_exists :: "filesystem \<Rightarrow> path \<Rightarrow> exn + bool" where
  "path_exists fs p = (case stat fs p of Inl e \<Rightarrow> Inl e | Inr k \<Rightarrow> Inr (k \<noteq> None))"

definition is_file :: "filesystem \<Rightarrow> path \<Rightarrow> exn + bool" where
  "is_file fs p = (case stat fs p of Inl e \<Rightarrow> Inl e | Inr k \<Rightarrow> Inr (k = Some Regular))"

definition is_dir :: "filesystem \<Rightarrow> path \<Rightarrow> exn + bool" where
  "is_dir fs p = (case stat fs p of Inl e \<Rightarrow> Inl e | Inr k \<Rightarrow> Inr (k = Some Directory))"

subsection \<open>\<^verbatim>\<open>Path.glob\<close>\<close>

text \<open>
  A generator is modelled by the list of the items it yields and the exception that
  ends it, if one does. The consumer sees the items in order and then the exception.
\<close>

type_synonym 'a generator = "'a list \<times> exn option"

text \<open>The selector of the pattern \<^verbatim>\<open>*\<close>: it yields every entry of the directory, and
  a \<^verbatim>\<open>PermissionError\<close> of the listing ends it silently.\<close>

definition wildcard_select :: "filesystem \<Rightarrow> path \<Rightarrow> path generator" where
  "wildcard_select fs parent_path =
     (case scandir fs parent_path of
        Inl e \<Rightarrow> if e = PermissionError then ([], None) else ([], Some e)
      | Inr entries \<Rightarrow> (map (\<lambda>entry. parent_path @ [fst entry]) entries, None))"

text \<open>
  \<^verbatim>\<open>_iterate_directories\<close> of the selector of \<^verbatim>\<open>**\<close>: it yields the directory, lists it
  and descends into every entry that is itself a directory, in the order of the
  listing. A \<^verbatim>\<open>PermissionError\<close> of the listing or of an entry ends the generator
  silently, any other exception leaves it. The first argument counts the levels
  that may still be nested.
\<close>

fun iterate_directories :: "filesystem \<Rightarrow> nat \<Rightarrow> path \<Rightarrow> path generator"
  and iterate_entries ::
    "filesystem \<Rightarrow> nat \<Rightarrow> path \<Rightarrow> (string \<times> (exn + bool)) list \<Rightarrow> path generator"
  where
  "iterate_directories fs 0 parent_path = ([], Some RecursionError)"
| "iterate_directories fs (Suc d) parent_path =
     (case scandir fs parent_path of
        Inl e \<Rightarrow> if e = PermissionError then ([parent_path], None) else ([parent_path], Some e)
      | Inr entries \<Rightarrow>
          (case iterate_entries fs d parent_path entries of
             (ps, err) \<Rightarrow>
               (parent_path # ps, if err = Some PermissionError then None else err)))"
| "iterate_entries fs d parent_path [] = ([], None)"
| "iterate_entries fs d parent_path (entry # entries) =
     (case snd entry of
        Inl e \<Rightarrow> ([], Some e)
      | Inr False \<Rightarrow> iterate_entries fs d parent_path entries
      | Inr True \<Rightarrow>
          (case iterate_directories fs d (parent_path @ [fst entry]) of
             (ps, Some e) \<Rightarrow> (ps, Some e)
           | (ps, None) \<Rightarrow>
               (case iterate_entries fs d parent_path entries of
                  (qs, err) \<Rightarrow> (ps @ qs, err))))"

text \<open>The loop of \<^verbatim>\<open>_RecursiveWildcardSelector._select_from\<close> over the starting points:
  the entries of each are yielded before the next starting point is asked for, so an
  exception of a listing comes before the later starting points and the exception
  of \<^verbatim>\<open>_iterate_directories\<close> comes last.\<close>

fun select_each :: "filesystem \<Rightarrow> path list \<Rightarrow> exn option \<Rightarrow> path generator" where
  "select_each fs [] err = ([], err)"
| "select_each fs (starting_point # rest) err =
     (case wildcard_select fs starting_point of
        (ps, Some e) \<Rightarrow> (ps, Some e)
      | (ps, None) \<Rightarrow> (case select_each fs rest err of (qs, err') \<Rightarrow> (ps @ qs, err')))"

text \<open>The set \<^verbatim>\<open>yielded\<close>: a path is yielded the first time only.\<close>

fun unyielded :: "path list \<Rightarrow> path list \<Rightarrow> path list" where
  "unyielded yielded [] = []"
| "unyielded yielded (p # ps) =
     (if p \<in> set yielded then unyielded yielded ps else p # unyielded (p # yielded) ps)"

definition recursive_select :: "filesystem \<Rightarrow> path \<Rightarrow> path generator" where
  "recursive_select fs parent_path =
     (case iterate_directories fs (recursion_limit fs) parent_path of
        (starting_points, err) \<Rightarrow>
          (case select_each fs starting_points err of
             (ps, err') \<Rightarrow>
               (unyielded [] ps, if err' = Some PermissionError then None else err')))"

text \<open>\<^verbatim>\<open>select_from\<close>: nothing is yielded for a path that is not a directory. The
  patterns of the script are \<^verbatim>\<open>**/*\<close> (recursive) and \<^verbatim>\<open>*\<close>.\<close>

definition glob :: "filesystem \<Rightarrow> path \<Rightarrow> bool \<Rightarrow> path generator" where
  "glob fs sp recursive_pattern =
     (case is_dir fs sp of
        Inl e \<Rightarrow> ([], Some e)
      | Inr False \<Rightarrow> ([], None)
      | Inr True \<Rightarrow> (if recursive_pattern then recursive_select fs sp else wildcard_select fs sp))"

subsection \<open>\<^verbatim>\<open>get_files_to_upload\<close>\<close>

text \<open>The loop over the glob: a regular file is appended, anything else is skipped; an
  exception of \<^verbatim>\<open>is_file\<close> or \<^verbatim>\<open>relative_to\<close> ends the loop, and so does the exception
  of the generator once its items are used up.\<close>

fun collect_files :: "filesystem \<Rightarrow> path \<Rightarrow> path list \<Rightarrow> exn option \<Rightarrow> (path \<times> string) list
    \<Rightarrow> exn + (path \<times> string) list" where
  "collect_files fs sp [] err files = (case err of None \<Rightarrow> Inr files | Some e \<Rightarrow> Inl e)"
| "collect_files fs sp (fp # fps) err files =
     (case is_file fs fp of
        Inl e \<Rightarrow> Inl e
      | Inr False \<Rightarrow> collect_files fs sp fps err files
      | Inr True \<Rightarrow>
          (case relative_to fp sp of
             Inl e \<Rightarrow> Inl e
           | Inr rel_path \<Rightarrow> collect_files fs sp fps err (files @ [(fp, path_str rel_path)])))"

definition get_files_to_upload :: "filesystem \<Rightarrow> string \<Rightarrow> bool \<Rightarrow> exn + (path \<times> string) list"
  where
  "get_files_to_upload fs source_str recursive_flag =
     (let source_path = Path source_str
      in case path_exists fs source_path of
           Inl e \<Rightarrow> Inl e
         | Inr False \<Rightarrow> Inl FileNotFoundError
         | Inr True \<Rightarrow>
             (case is_file fs source_path of
                Inl e \<Rightarrow> Inl e
              | Inr True \<Rightarrow> Inr [(source_path, path_name source_path)]
              | Inr False \<Rightarrow>
                  (case glob fs source_path recursive_flag of
                     (fps, err) \<Rightarrow> collect_files fs source_path fps err [])))"

subsection \<open>The remote key\<close>

text \<open>\<^verbatim>\<open>os.path.join(a, b)\<close> of \<^verbatim>\<open>posixpath\<close>, for two arguments.\<close>

definition startswith_sep :: "string \<Rightarrow> bool" where
  "startswith_sep s = (case s of [] \<Rightarrow> False | c # cs \<Rightarrow> c = CHR ''/'')"

definition endswith_sep :: "string \<Rightarrow> bool" where
  "endswith_sep s = (s \<noteq> [] \<and> last s = CHR ''/'')"

definition os_path_join :: "string \<Rightarrow> string \<Rightarrow> string" where
  "os_path_join a b =
     (if startswith_sep b then b
      else if a = [] \<or> endswith_sep a then a @ b
      else a @ ''/'' @ b)"

text \<open>\<^verbatim>\<open>s.replace('\\', '/')\<close>; the backslash is the character \<open>0x5C\<close>.\<close>

definition replace_backslash :: "string \<Rightarrow> string" where
  "replace_backslash s = map (\<lambda>c. if c = CHR 0x5C then CHR ''/'' else c) s"

definition full_s3_key :: "string \<Rightarrow> string \<Rightarrow> string" where
  "full_s3_key key_prefix s3_key = replace_backslash (os_path_join key_prefix s3_key)"


subsection \<open>Effects, the outside world and the command line\<close>

text \<open>
  The calls of the upload that are recorded. \<open>UploadFileobj\<close> is the only call that
  writes to the storage service; \<open>ListBuckets\<close> reads from it; \<open>OpenFile\<close> and \<open>GetSize\<close>
  touch the local file. The \<^verbatim>\<open>stat\<close> and \<^verbatim>\<open>scandir\<close> calls of the enumeration are not
  recorded.
\<close>

datatype effect =
    OpenFile path
  | UploadFileobj path "string option" string
  | ListBuckets
  | GetSize path

definition is_network_write :: "effect \<Rightarrow> bool" where
  "is_network_write e = (case e of UploadFileobj lp b k \<Rightarrow> True | _ \<Rightarrow> False)"

definition is_file_access :: "effect \<Rightarrow> bool" where
  "is_file_access e = (case e of OpenFile lp \<Rightarrow> True | GetSize lp \<Rightarrow> True | _ \<Rightarrow> False)"

text \<open>A future of the thread pool: its identity is its submission number; its result
  and the effects of its worker are fixed by the world.\<close>

record future =
  fut_id :: nat
  fut_result :: bool
  fut_effects :: "effect list"

text \<open>
  \<open>file_system\<close> answers the calls of the enumeration. The other fields answer the
  calls the script makes later, so a file can vanish between enumeration and upload:
  \<open>None\<close> means the call returned, \<open>Some e\<close> that it raised \<open>e\<close>. \<open>as_completed\<close> is the
  order in which the pool hands back the futures of the dictionary
  \<^verbatim>\<open>future_to_file\<close>, each paired with its file path. The clock values are the two
  results of \<^verbatim>\<open>time.time()\<close>; floating-point numbers are modelled as reals.
\<close>

record world =
  file_system :: filesystem
  boto3_client :: "exn option"
  list_buckets :: "exn option"
  session_client :: "exn option"
  open_file :: "path \<Rightarrow> exn option"
  upload_fileobj :: "path \<Rightarrow> string option \<Rightarrow> string \<Rightarrow> exn option"
  getsize :: "path \<Rightarrow> exn + nat"
  as_completed :: "(future \<times> path) list \<Rightarrow> (future \<times> path) list"
  time_start :: real
  time_end :: real

text \<open>The parsed arguments. An absent source or bucket is \<open>None\<close>; the source is the
  string of the command line.\<close>

record args =
  source :: "string option"
  bucket :: "string option"
  prefix :: string
  recursive :: bool
  dry_run :: bool
  verbose :: bool
  validate :: bool

subsection \<open>\<^verbatim>\<open>validate_aws_credentials\<close>\<close>

text \<open>The three \<^verbatim>\<open>except\<close> clauses. Every branch of the \<^verbatim>\<open>ClientError\<close> clause logs a
  message and returns \<^verbatim>\<open>False\<close>; reading the error code of a response without one
  raises inside the handler and is not caught.\<close>

fun credentials_handler :: "exn \<Rightarrow> exn + bool" where
  "credentials_handler NoCredentialsError = Inr False"
| "credentials_handler (ClientError None) = Inl KeyError"
| "credentials_handler (ClientError (Some error_code)) =
     (if error_code = ''InvalidAccessKeyId'' then Inr False
      else if error_code = ''SignatureDoesNotMatch'' then Inr False
      else Inr False)"
| "credentials_handler e = Inr False"

definition validate_aws_credentials :: "world \<Rightarrow> (exn + bool) \<times> effect list" where
  "validate_aws_credentials w =
     (case boto3_client w of
        Some e \<Rightarrow> (credentials_handler e, [])
      | None \<Rightarrow>
          (case list_buckets w of
             Some e \<Rightarrow> (credentials_handler e, [ListBuckets])
           | None \<Rightarrow> (Inr True, [ListBuckets])))"

subsection \<open>\<^verbatim>\<open>validate_args\<close>\<close>




subsection \<open>\<^verbatim>\<open>upload_file\<close>\<close>

text \<open>The body of the \<^verbatim>\<open>try\<close> block, then the \<^verbatim>\<open>except Exception\<close> clause around it.\<close>

definition upload_file_body :: "world \<Rightarrow> path \<Rightarrow> string option \<Rightarrow> string \<Rightarrow> bool
    \<Rightarrow> (exn + bool) \<times> effect list" where
  "upload_file_body w local_path b s3_key dry =
     (if dry then (Inr True, [])
      else (case open_file w local_path of
              Some e \<Rightarrow> (Inl e, [OpenFile local_path])
            | None \<Rightarrow>
                (case upload_fileobj w local_path b s3_key of
                   Some e \<Rightarrow> (Inl e, [OpenFile local_path, UploadFileobj local_path b s3_key])
                 | None \<Rightarrow> (Inr True, [OpenFile local_path, UploadFileobj local_path b s3_key]))))"

definition upload_file :: "world \<Rightarrow> path \<Rightarrow> string option \<Rightarrow> string \<Rightarrow> bool
    \<Rightarrow> bool \<times> effect list" where
  "upload_file w local_path b s3_key dry =
     (case upload_file_body w local_path b s3_key dry of
        (Inl e, es) \<Rightarrow> (False, es)
      | (Inr r, es) \<Rightarrow> (r, es))"

subsection \<open>\<^verbatim>\<open>format_size\<close> and \<^verbatim>\<open>print_summary_report\<close>\<close>

fun format_size_loop :: "real \<Rightarrow> string list \<Rightarrow> real \<times> string" where
  "format_size_loop size_bytes [] = (size_bytes, ''PB'')"
| "format_size_loop size_bytes (unit # units) =
     (if size_bytes < 1024 then (size_bytes, unit)
      else format_size_loop (size_bytes / 1024) units)"

definition format_size :: "real \<Rightarrow> real \<times> string" where
  "format_size size_bytes = format_size_loop size_bytes [''B'', ''KB'', ''MB'', ''GB'', ''TB'']"

text \<open>Python's \<^verbatim>\<open>/\<close> raises on a zero divisor.\<close>

definition py_truediv :: "real \<Rightarrow> real \<Rightarrow> exn + real" where
  "py_truediv x y = (if y = 0 then Inl ZeroDivisionError else Inr (x / y))"

record summary =
  total_files :: nat
  total_bytes :: nat
  duration :: real
  avg_rate :: real
  files_per_second :: real
  size_text :: "real \<times> string"
  rate_text :: "real \<times> string"

definition print_summary_report :: "world \<Rightarrow> nat \<Rightarrow> nat \<Rightarrow> real \<Rightarrow> exn + summary" where
  "print_summary_report w n_files n_bytes start_time =
     (let end_time = time_end w;
          d = end_time - start_time
      in case (if d > 0 then py_truediv (real n_bytes) d else Inr 0) of
           Inl e \<Rightarrow> Inl e
         | Inr rate \<Rightarrow>
             (case (if d > 0 then py_truediv (real n_files) d else Inr 0) of
                Inl e \<Rightarrow> Inl e
              | Inr fps \<Rightarrow>
                  Inr \<lparr>total_files = n_files, total_bytes = n_bytes, duration = d,
                       avg_rate = rate, files_per_second = fps,
                       size_text = format_size (real n_bytes),
                       rate_text = format_size rate\<rparr>))"

subsection \<open>\<^verbatim>\<open>upload_files\<close>\<close>

text \<open>What a call of \<^verbatim>\<open>upload_files\<close> leaves behind: its return value, the effects of
  its calls, the destinations listed by a dry run, one entry per completed future
  (the file path and the result of the future, in completion order) and the summary
  report if one was printed.\<close>

record run =
  success :: bool
  effects :: "effect list"
  preview :: "(path \<times> string) list"
  results :: "(path \<times> bool) list"
  report :: "summary option"

definition finished_run :: "bool \<Rightarrow> run" where
  "finished_run ok =
     \<lparr>success = ok, effects = [], preview = [], results = [], report = None\<rparr>"

text \<open>The \<^verbatim>\<open>except Exception\<close> clause of \<^verbatim>\<open>upload_files\<close>: the effects and results so
  far stay, the call returns \<^verbatim>\<open>False\<close>.\<close>

definition aborted_run :: "effect list \<Rightarrow> (path \<times> bool) list \<Rightarrow> run" where
  "aborted_run es rs =
     \<lparr>success = False, effects = es, preview = [], results = rs, report = None\<rparr>"

text \<open>\<^verbatim>\<open>str(args.bucket)\<close> inside an f-string.\<close>

definition bucket_str :: "string option \<Rightarrow> string" where
  "bucket_str b = (case b of None \<Rightarrow> ''None'' | Some s \<Rightarrow> s)"

definition s3_url :: "string option \<Rightarrow> string \<Rightarrow> string" where
  "s3_url b k = ''s3://'' @ bucket_str b @ ''/'' @ k"

definition dry_run_listing :: "args \<Rightarrow> (path \<times> string) list \<Rightarrow> (path \<times> string) list" where
  "dry_run_listing a files =
     map (\<lambda>(local_path, s3_key). (local_path, s3_url (bucket a) (full_s3_key (prefix a) s3_key)))
       files"

definition upload_tasks :: "args \<Rightarrow> (path \<times> string) list \<Rightarrow> (path \<times> string) list" where
  "upload_tasks a files =
     map (\<lambda>(local_path, s3_key). (local_path, full_s3_key (prefix a) s3_key)) files"

text \<open>\<^verbatim>\<open>executor.submit(upload_file, ...)\<close>: the future with submission number \<open>i\<close>.\<close>

definition submit :: "world \<Rightarrow> args \<Rightarrow> nat \<times> path \<times> string \<Rightarrow> future" where
  "submit w a t =
     (case t of (i, local_path, s3_key) \<Rightarrow>
        (case upload_file w local_path (bucket a) s3_key (dry_run a) of
           (r, es) \<Rightarrow> \<lparr>fut_id = i, fut_result = r, fut_effects = es\<rparr>))"

text \<open>The submission loop \<^verbatim>\<open>for i in range(0, len(upload_tasks), batch_size)\<close>: the
  batch is the slice \<^verbatim>\<open>upload_tasks[i:i + batch_size]\<close>, its futures are created in
  order and entered into the dictionary \<^verbatim>\<open>future_to_file\<close> (an association list in
  insertion order).\<close>

function submit_loop :: "world \<Rightarrow> args \<Rightarrow> nat \<Rightarrow> (path \<times> string) list \<Rightarrow> nat
    \<Rightarrow> (future \<times> path) list \<Rightarrow> (future \<times> path) list" where
  "submit_loop w a bs tasks i future_to_file =
     (if i < length tasks \<and> 0 < bs
      then (let batch = take bs (drop i tasks);
                futures = map (submit w a) (enumerate i batch)
            in submit_loop w a bs tasks (i + bs)
                 (future_to_file @ zip futures (map fst batch)))
      else future_to_file)"
  by pat_completeness auto
termination
  by (relation "measure (\<lambda>(w, a, bs, tasks, i, ftf). length tasks - i)") auto

declare submit_loop.simps [simp del]

text \<open>\<^verbatim>\<open>range\<close> raises \<^verbatim>\<open>ValueError\<close> for a step of zero.\<close>

definition submit_batches :: "world \<Rightarrow> args \<Rightarrow> nat \<Rightarrow> (path \<times> string) list
    \<Rightarrow> exn + (future \<times> path) list" where
  "submit_batches w a bs tasks =
     (if bs = 0 then Inl ValueError else Inr (submit_loop w a bs tasks 0 []))"

definition batch_size :: nat where
  "batch_size = 1000"

text \<open>The completion loop. The state is the flag \<^verbatim>\<open>success\<close>, the sum
  \<^verbatim>\<open>total_size\<close>, the entries reported so far and the \<^verbatim>\<open>getsize\<close> calls made. A
  \<^verbatim>\<open>getsize\<close> that raises is caught by the \<^verbatim>\<open>except\<close> clause inside the loop.\<close>

record tally =
  tally_success :: bool
  tally_size :: nat
  tally_results :: "(path \<times> bool) list"
  tally_effects :: "effect list"

fun collect_results :: "world \<Rightarrow> (future \<times> path) list \<Rightarrow> tally \<Rightarrow> tally" where
  "collect_results w [] t = t"
| "collect_results w (fp # rest) t =
     (let f = fst fp; file_path = snd fp;
          s = (if \<not> fut_result f then False else tally_success t)
      in case getsize w file_path of
           Inr file_size \<Rightarrow>
             collect_results w rest
               \<lparr>tally_success = s, tally_size = tally_size t + file_size,
                tally_results = tally_results t @ [(file_path, fut_result f)],
                tally_effects = tally_effects t @ [GetSize file_path]\<rparr>
         | Inl e \<Rightarrow>
             collect_results w rest
               \<lparr>tally_success = False, tally_size = tally_size t,
                tally_results = tally_results t @ [(file_path, fut_result f)],
                tally_effects = tally_effects t @ [GetSize file_path]\<rparr>)"

text \<open>The live part of \<^verbatim>\<open>upload_files\<close>, from the worker pool to the report, with the
  submission as a parameter. \<^verbatim>\<open>ThreadPoolExecutor\<close> raises \<^verbatim>\<open>ValueError\<close> for a pool of
  no workers. The effects of the workers are listed in submission order, before the
  \<^verbatim>\<open>getsize\<close> calls of the completion loop.\<close>

definition run_pool :: "world \<Rightarrow> nat \<Rightarrow> exn + (future \<times> path) list \<Rightarrow> run" where
  "run_pool w n_files submitted =
     (let max_workers = min 32 n_files;
          start_time = time_start w
      in if max_workers = 0 then aborted_run [] []
         else (case submitted of
                 Inl e \<Rightarrow> aborted_run [] []
               | Inr future_to_file \<Rightarrow>
                   (let worker_effects = concat (map (fut_effects \<circ> fst) future_to_file);
                        t = collect_results w (as_completed w future_to_file)
                              \<lparr>tally_success = True, tally_size = 0, tally_results = [],
                               tally_effects = []\<rparr>;
                        es = worker_effects @ tally_effects t
                    in case print_summary_report w n_files (tally_size t) start_time of
                         Inl e \<Rightarrow> aborted_run es (tally_results t)
                       | Inr s \<Rightarrow>
                           \<lparr>success = tally_success t, effects = es, preview = [],
                            results = tally_results t, report = Some s\<rparr>)))"

definition upload_files :: "world \<Rightarrow> args \<Rightarrow> run" where
  "upload_files w a =
     (case session_client w of
        Some e \<Rightarrow> aborted_run [] []
      | None \<Rightarrow>
          (case source a of
             None \<Rightarrow> aborted_run [] []
           | Some src \<Rightarrow>
               (case get_files_to_upload (file_system w) src (recursive a) of
                  Inl e \<Rightarrow> aborted_run [] []
                | Inr files \<Rightarrow>
                    (if files = [] then finished_run True
                     else if dry_run a
                     then (finished_run True)\<lparr>preview := dry_run_listing a files\<rparr>
                     else run_pool w (length files)
                            (submit_batches w a batch_size (upload_tasks a files))))))"

subsection \<open>\<^verbatim>\<open>main\<close>\<close>



subsection \<open>Well-formed and accessible file systems\<close>

text \<open>A file name is not empty, holds no separator and is neither \<^verbatim>\<open>.\<close> nor \<^verbatim>\<open>..\<close>. In
  a well-formed file system every regular file and every entry of a listing has such
  a name.\<close>

definition valid_name :: "string \<Rightarrow> bool" where
  "valid_name n = (n \<noteq> [] \<and> CHR ''/'' \<notin> set n \<and> n \<noteq> ''.'' \<and> n \<noteq> ''..'')"

definition wf_fs :: "filesystem \<Rightarrow> bool" where
  "wf_fs t =
     ((\<forall>p. stat t p = Inr (Some Regular) \<longrightarrow> p \<noteq> [] \<and> valid_name (last p)) \<and>
      (\<forall>p entries. scandir t p = Inr entries \<longrightarrow> (\<forall>entry \<in> set entries. valid_name (fst entry))))"

text \<open>A name that some listing holds.\<close>

definition listed_name :: "filesystem \<Rightarrow> string \<Rightarrow> bool" where
  "listed_name t n = (\<exists>p entries d. scandir t p = Inr entries \<and> (n, d) \<in> set entries)"



subsection \<open>Small file systems for examples\<close>

text \<open>The current directory holds \<^verbatim>\<open>a.txt\<close>, the directory \<^verbatim>\<open>sub\<close> with \<^verbatim>\<open>b.txt\<close> in it, and
  a named pipe.\<close>

definition demo_fs :: filesystem where
  "demo_fs =
     \<lparr>stat = (\<lambda>p. if p = [] \<or> p = [''sub''] then Inr (Some Directory)
                  else if p = [''a.txt''] \<or> p = [''sub'', ''b.txt''] then Inr (Some Regular)
                  else if p = [''pipe''] then Inr (Some Other)
                  else Inr None),
      scandir = (\<lambda>p. if p = [] then Inr [(''a.txt'', Inr False), (''sub'', Inr True), (''pipe'', Inr False)]
                     else if p = [''sub''] then Inr [(''b.txt'', Inr False)]
                     else Inl OSError),
      recursion_limit = 100\<rparr>"

text \<open>The directory \<^verbatim>\<open>q\<close> with the file \<^verbatim>\<open>a.txt\<close>, readable but not searchable (mode
  0444): its listing succeeds and the \<^verbatim>\<open>stat\<close> of its entry is refused.\<close>

definition unsearchable_fs :: filesystem where
  "unsearchable_fs =
     \<lparr>stat = (\<lambda>p. if p = [] \<or> p = [''q''] then Inr (Some Directory)
                  else if p = [''q'', ''a.txt''] then Inl PermissionError
                  else Inr None),
      scandir = (\<lambda>p. if p = [] then Inr [(''q'', Inr True)]
                     else if p = [''q''] then Inr [(''a.txt'', Inr False)]
                     else Inl OSError),
      recursion_limit = 100\<rparr>"

text \<open>The same directory, searchable but not readable (mode 0111): the \<^verbatim>\<open>stat\<close> of its
  entry succeeds and its listing is refused.\<close>

definition unlistable_fs :: filesystem where
  "unlistable_fs =
     \<lparr>stat = (\<lambda>p. if p = [] \<or> p = [''q''] then Inr (Some Directory)
                  else if p = [''q'', ''a.txt''] then Inr (Some Regular)
                  else Inr None),
      scandir = (\<lambda>p. if p = [] then Inr [(''q'', Inr True)]
                     else if p = [''q''] then Inl PermissionError
                     else Inl OSError),
      recursion_limit = 100\<rparr>"

text \<open>The current directory holds one file, whose name has a backslash in it.\<close>

definition backslash_fs :: filesystem where
  "backslash_fs =
     \<lparr>stat = (\<lambda>p. if p = [] then Inr (Some Directory)
                  else if p = [[CHR ''x'', CHR 0x5C, CHR ''y'']] then Inr (Some Regular)
                  else Inr None),
      scandir = (\<lambda>p. if p = [] then Inr [([CHR ''x'', CHR 0x5C, CHR ''y''], Inr False)]
                     else Inl OSError),
      recursion_limit = 100\<rparr>"

subsection \<open>Unbatched submission\<close>

text \<open>The dispatch the specification compares with: every task is submitted in one
  pass, in task order, without slicing the task list. \<open>submitted\<close> is the same pass
  with the submission numbers starting at \<open>i\<close>.\<close>

definition submit_unbatched :: "world \<Rightarrow> args \<Rightarrow> (path \<times> string) list \<Rightarrow> (future \<times> path) list" where
  "submit_unbatched w a tasks = zip (map (submit w a) (enumerate 0 tasks)) (map fst tasks)"

definition submitted :: "world \<Rightarrow> args \<Rightarrow> nat \<Rightarrow> (path \<times> string) list \<Rightarrow> (future \<times> path) list" where
  "submitted w a i xs = zip (map (submit w a) (enumerate i xs)) (map fst xs)"

subsection \<open>A small world for examples\<close>

text \<open>The example file system with the prefix \<^verbatim>\<open>data\<close> and the bucket \<^verbatim>\<open>mybucket\<close>. The file
  \<^verbatim>\<open>a.txt\<close> has vanished by the time it is opened and sized; the futures complete in
  the reverse of their submission order.\<close>

definition demo_world :: world where
  "demo_world =
     \<lparr>file_system = demo_fs, boto3_client = None, list_buckets = None, session_client = None,
      open_file = (\<lambda>p. if p = [''a.txt''] then Some FileNotFoundError else None),
      upload_fileobj = (\<lambda>p b k. None),
      getsize = (\<lambda>p. if p = [''a.txt''] then Inl FileNotFoundError else Inr 20),
      as_completed = rev, time_start = 0, time_end = 2\<rparr>"

definition demo_args :: args where
  "demo_args =
     \<lparr>source = Some ''.'', bucket = Some ''mybucket'', prefix = ''data'', recursive = True,
      dry_run = False, verbose = False, validate = False\<rparr>"

section \<open>Properties\<close>

subsection \<open>The paths of the glob\<close>

lemma wildcard_select_rel:
  "fp \<in> set (fst (wildcard_select t p)) \<Longrightarrow> \<exists>n. fp = p @ [n] \<and> listed_name t n"
  by (auto simp: wildcard_select_def listed_name_def split: sum.splits if_splits) (metis prod.collapse)

lemma iterate_rel:
  "\<forall>q \<in> set (fst (iterate_directories t d p)). \<exists>rel. q = p @ rel \<and> (\<forall>n \<in> set rel. listed_name t n)"
  "(\<forall>e \<in> set es. listed_name t (fst e)) \<longrightarrow>
   (\<forall>q \<in> set (fst (iterate_entries t d p es)).
      \<exists>rel. q = p @ rel \<and> (\<forall>n \<in> set rel. listed_name t n))"
proof (induction t d p and t d p es rule: iterate_directories_iterate_entries.induct)
  case (1 fs parent_path)
  show ?case by simp
next
  case (2 fs d parent_path)
  show ?case
  proof (cases "scandir fs parent_path")
    case (Inl e)
    then show ?thesis by simp
  next
    case (Inr entries)
    then have "\<forall>e \<in> set entries. listed_name fs (fst e)"
      by (auto simp: listed_name_def) (metis prod.collapse)
    with 2 [OF Inr] Inr show ?thesis
      by (auto split: prod.splits)
  qed
next
  case (3 fs d parent_path)
  show ?case by simp
next
  case (4 fs d parent_path entry entries)
  show ?case
  proof (intro impI ballI)
    fix q
    assume names: "\<forall>e \<in> set (entry # entries). listed_name fs (fst e)"
      and q: "q \<in> set (fst (iterate_entries fs d parent_path (entry # entries)))"
    show "\<exists>rel. q = parent_path @ rel \<and> (\<forall>n \<in> set rel. listed_name fs n)"
    proof (cases "snd entry")
      case (Inl e)
      with q show ?thesis by simp
    next
      case (Inr b)
      show ?thesis
      proof (cases b)
        case False
        then have bf: "b = False" by simp
        with 4(3) [OF Inr bf] Inr names q show ?thesis by simp
      next
        case True
        then have bt: "b = True" by simp
        obtain ps err where it: "iterate_directories fs d (parent_path @ [fst entry]) = (ps, err)"
          by (cases "iterate_directories fs d (parent_path @ [fst entry])")
        have child: "\<exists>rel. x = parent_path @ rel \<and> (\<forall>n \<in> set rel. listed_name fs n)"
          if "x \<in> set ps" for x
        proof -
          from 4(1) [OF Inr bt] it that obtain rel where
            "x = (parent_path @ [fst entry]) @ rel" "\<forall>n \<in> set rel. listed_name fs n"
            by fastforce
          with names show ?thesis
            by (intro exI [of _ "fst entry # rel"]) simp
        qed
        show ?thesis
        proof (cases err)
          case (Some e)
          with True Inr it q child show ?thesis by simp
        next
          case None
          with True Inr it q
          have "q \<in> set ps \<or> q \<in> set (fst (iterate_entries fs d parent_path entries))"
            by (auto split: prod.splits)
          with child 4(2) [OF Inr bt it [symmetric] None] names show ?thesis
            by auto
        qed
      qed
    qed
  qed
qed

lemma select_each_rel:
  "(\<forall>q \<in> set sps. \<exists>rel. q = p @ rel \<and> (\<forall>n \<in> set rel. listed_name t n)) \<Longrightarrow>
   fp \<in> set (fst (select_each t sps err)) \<Longrightarrow>
   \<exists>rel. fp = p @ rel \<and> rel \<noteq> [] \<and> (\<forall>n \<in> set rel. listed_name t n)"
proof (induction sps)
  case Nil
  then show ?case by simp
next
  case (Cons sp sps)
  obtain ps e where w: "wildcard_select t sp = (ps, e)" by (cases "wildcard_select t sp")
  from Cons.prems(1) obtain rel where rel: "sp = p @ rel" "\<forall>n \<in> set rel. listed_name t n"
    by auto
  have here: "\<exists>rel. x = p @ rel \<and> rel \<noteq> [] \<and> (\<forall>n \<in> set rel. listed_name t n)"
    if "x \<in> set ps" for x
  proof -
    from that w wildcard_select_rel [of x t sp] obtain n where "x = sp @ [n]" "listed_name t n"
      by auto
    with rel show ?thesis by (intro exI [of _ "rel @ [n]"]) simp
  qed
  show ?case
  proof (cases e)
    case (Some a)
    with Cons.prems(2) w here show ?thesis by simp
  next
    case None
    with Cons.prems(2) w have "fp \<in> set ps \<or> fp \<in> set (fst (select_each t sps err))"
      by (auto split: prod.splits)
    with here Cons.IH Cons.prems(1) show ?thesis by auto
  qed
qed

lemma unyielded_subset: "set (unyielded ys ps) \<subseteq> set ps"
  by (induction ys ps rule: unyielded.induct) auto

lemma glob_rel:
  assumes "fp \<in> set (fst (glob t sp r))"
  shows "\<exists>rel. fp = sp @ rel \<and> rel \<noteq> [] \<and> (\<forall>n \<in> set rel. listed_name t n)"
proof (cases r)
  case False
  with assms have "fp \<in> set (fst (wildcard_select t sp))"
    by (auto simp: glob_def split: sum.splits bool.splits if_splits)
  from wildcard_select_rel [OF this] show ?thesis by auto
next
  case True
  with assms have fp: "fp \<in> set (fst (recursive_select t sp))"
    by (auto simp: glob_def split: sum.splits bool.splits if_splits)
  obtain sps err where it: "iterate_directories t (recursion_limit t) sp = (sps, err)"
    by (cases "iterate_directories t (recursion_limit t) sp")
  from fp it have "fp \<in> set (fst (select_each t sps err))"
    using unyielded_subset by (auto simp: recursive_select_def split: prod.splits)
  moreover from iterate_rel(1) [of t "recursion_limit t" sp] it
  have "\<forall>q \<in> set sps. \<exists>rel. q = sp @ rel \<and> (\<forall>n \<in> set rel. listed_name t n)" by simp
  ultimately show ?thesis by (rule select_each_rel [rotated])
qed

lemma valid_name_not_root: "valid_name n \<Longrightarrow> n \<noteq> ''/'' \<and> n \<noteq> ''//'' \<and> n \<noteq> []"
  by (auto simp: valid_name_def)

lemma wf_listed: "wf_fs t \<Longrightarrow> listed_name t n \<Longrightarrow> valid_name n"
  by (force simp: wf_fs_def listed_name_def)

lemma relative_to_child:
  assumes "rel \<noteq> []" "valid_name (hd rel)"
  shows "relative_to (sp @ rel) sp = Inr rel"
proof (cases sp)
  case Nil
  with assms valid_name_not_root [of "hd rel"] show ?thesis
    by (cases rel) (auto simp: relative_to_def is_rooted_def)
next
  case (Cons a list)
  then show ?thesis by (simp add: relative_to_def)
qed

lemma join_parts_head:
  "ps \<noteq> [] \<Longrightarrow> hd ps \<noteq> [] \<Longrightarrow> join_parts ps \<noteq> [] \<and> hd (join_parts ps) = hd (hd ps)"
  by (induction ps rule: join_parts.induct) auto

lemma path_str_head:
  assumes "rel \<noteq> []" "valid_name (hd rel)"
  shows "path_str rel \<noteq> [] \<and> hd (path_str rel) \<noteq> CHR ''/''"
proof -
  from assms valid_name_not_root [of "hd rel"] have nr: "\<not> is_rooted rel"
    by (cases rel) (auto simp: is_rooted_def)
  from assms(2) have "hd rel \<noteq> []" "hd (hd rel) \<noteq> CHR ''/''"
    by (cases "hd rel"; auto simp: valid_name_def)+
  with assms(1) nr join_parts_head [of rel] show ?thesis
    by (simp add: path_str_def)
qed

lemma startswith_sep_hd: "s \<noteq> [] \<Longrightarrow> startswith_sep s = (hd s = CHR ''/'')"
  by (cases s) (simp_all add: startswith_sep_def)

subsection \<open>Remote keys\<close>

lemma collect_files_member:
  "collect_files t sp fps err files = Inr out \<Longrightarrow> (fp, k) \<in> set out \<Longrightarrow>
   (fp, k) \<in> set files \<or>
   (fp \<in> set fps \<and> stat t fp = Inr (Some Regular) \<and> relative_to fp sp = Inr (drop (length sp) fp) \<and>
    k = path_str (drop (length sp) fp))"
proof (induction fps arbitrary: files)
  case Nil
  then show ?case by (auto split: option.splits)
next
  case (Cons a fps)
  show ?case
  proof (cases "is_file t a")
    case (Inl e)
    with Cons.prems show ?thesis by simp
  next
    case (Inr b)
    show ?thesis
    proof (cases b)
      case False
      with Inr Cons.prems Cons.IH [of files] show ?thesis by auto
    next
      case True
      with Inr have reg: "stat t a = Inr (Some Regular)"
        by (auto simp: is_file_def split: sum.splits)
      from True Inr Cons.prems(1) obtain rel where rel: "relative_to a sp = Inr rel"
        and rest: "collect_files t sp fps err (files @ [(a, path_str rel)]) = Inr out"
        by (auto split: sum.splits)
      from rel have rel_eq: "rel = drop (length sp) a"
        by (auto simp: relative_to_def split: if_splits)
      from Cons.IH [OF rest Cons.prems(2)] reg rel rel_eq show ?thesis by auto
    qed
  qed
qed

lemma enumerated_key:
  assumes wf: "wf_fs t" and files: "get_files_to_upload t sp r = Inr files"
      and mem: "(fp, k) \<in> set files"
  shows "k \<noteq> [] \<and> \<not> startswith_sep k"
proof (cases "stat t (Path sp) = Inr (Some Regular)")
  case True
  with files mem have k: "k = path_name (Path sp)"
    by (auto simp: get_files_to_upload_def path_exists_def is_file_def Let_def)
  from True wf have ne: "Path sp \<noteq> []" and v: "valid_name (last (Path sp))"
    by (auto simp: wf_fs_def)
  have "path_name (Path sp) = last (Path sp)"
  proof -
    from v valid_name_not_root [of "last (Path sp)"]
    have "Path sp \<noteq> [''/'']" "Path sp \<noteq> [''//'']" by auto
    with ne show ?thesis by (simp add: path_name_def)
  qed
  with k have kv: "valid_name k" using v by simp
  then have "k \<noteq> []" "hd k \<noteq> CHR ''/''"
    by (cases k; auto simp: valid_name_def)+
  then show ?thesis by (simp add: startswith_sep_hd)
next
  case False
  obtain fps err where g: "glob t (Path sp) r = (fps, err)" by (cases "glob t (Path sp) r")
  from files False g have c: "collect_files t (Path sp) fps err [] = Inr files"
    by (auto simp: get_files_to_upload_def path_exists_def is_file_def Let_def
        split: sum.splits if_splits bool.splits)
  from collect_files_member [OF c mem] have fp: "fp \<in> set fps"
    and rel: "relative_to fp (Path sp) = Inr (drop (length (Path sp)) fp)"
    and k: "k = path_str (drop (length (Path sp)) fp)"
    by auto
  from fp g glob_rel [of fp t "Path sp" r] obtain q where
    q: "fp = Path sp @ q" "q \<noteq> []" "\<forall>n \<in> set q. listed_name t n" by auto
  then have "valid_name (hd q)" using wf_listed [OF wf] by (cases q) auto
  with q k path_str_head [of q] show ?thesis
    by (simp add: startswith_sep_hd)
qed

lemma full_s3_key_startswith:
  assumes "k \<noteq> []" "\<not> startswith_sep k"
  shows "startswith_sep (full_s3_key p k) =
    (if p = [] then hd k = CHR 0x5C else hd p = CHR ''/'' \<or> hd p = CHR 0x5C)"
proof (cases p)
  case Nil
  with assms show ?thesis
    by (cases k) (auto simp: full_s3_key_def os_path_join_def replace_backslash_def startswith_sep_def)
next
  case (Cons c cs)
  with assms show ?thesis
    by (auto simp: full_s3_key_def os_path_join_def replace_backslash_def startswith_sep_def)
qed

lemmas key_defs = full_s3_key_def os_path_join_def replace_backslash_def startswith_sep_def
  endswith_sep_def

lemmas path_defs = Path_def path_root_def path_name_def path_str_def is_rooted_def
  relative_to_def

lemmas enum_defs = get_files_to_upload_def path_exists_def is_file_def is_dir_def glob_def
  wildcard_select_def recursive_select_def

lemma wf_demo_fs: "wf_fs demo_fs"
  by (auto simp: wf_fs_def demo_fs_def valid_name_def split: if_splits)

lemma demo_fs_flat:
  "get_files_to_upload demo_fs ''.'' False = Inr [([''a.txt''], ''a.txt'')]"
  by (simp add: enum_defs path_defs demo_fs_def)

lemma demo_fs_recursive:
  "get_files_to_upload demo_fs ''.'' True =
     Inr [([''a.txt''], ''a.txt''), ([''sub'', ''b.txt''], ''sub/b.txt'')]"
  by (simp add: enum_defs path_defs demo_fs_def numeral_eq_Suc)

text \<open>Claim C2 as stated fails: the key \<^verbatim>\<open>a.txt\<close> is produced by enumeration, and with
  the prefix \<^verbatim>\<open>/data\<close> the remote key starts with a separator.\<close>

theorem remote_key_counterexample:
  "get_files_to_upload demo_fs ''.'' False = Inr [([''a.txt''], ''a.txt'')] \<and>
   full_s3_key ''/data'' ''a.txt'' = ''/data/a.txt'' \<and>
   startswith_sep (full_s3_key ''/data'' ''a.txt'')"
  by (simp add: key_defs demo_fs_flat)

text \<open>Claim C2, amended: over a well-formed file system no relative key produced by
  enumeration starts with a separator, and the remote key starts with a separator
  exactly when the prefix is not empty and starts with a slash or a backslash, or the
  prefix is empty and the key starts with a backslash.\<close>

theorem remote_key_startswith_sep:
  assumes "wf_fs t" "get_files_to_upload t sp r = Inr files" "(fp, k) \<in> set files"
  shows "\<not> startswith_sep k \<and>
    startswith_sep (full_s3_key p k) =
      (if p = [] then hd k = CHR 0x5C else hd p = CHR ''/'' \<or> hd p = CHR 0x5C)"
  using enumerated_key [OF assms] full_s3_key_startswith [of k p] by simp

text \<open>The amended claim C2 at the key \<^verbatim>\<open>sub/b.txt\<close> of the example file system and the
  prefix \<^verbatim>\<open>data\<close>.\<close>

theorem remote_key_startswith_sep_witness:
  "\<not> startswith_sep ''sub/b.txt'' \<and> \<not> startswith_sep (full_s3_key ''data'' ''sub/b.txt'')"
  using remote_key_startswith_sep [OF wf_demo_fs demo_fs_recursive,
      of "[''sub'', ''b.txt'']" "''sub/b.txt''" "''data''"]
  by simp

lemma replace_backslash_id: "CHR 0x5C \<notin> set s \<Longrightarrow> replace_backslash s = s"
  by (induction s) (auto simp: replace_backslash_def)

lemma backslash_fs_flat:
  "get_files_to_upload backslash_fs ''.'' False =
     Inr [([[CHR ''x'', CHR 0x5C, CHR ''y'']], [CHR ''x'', CHR 0x5C, CHR ''y''])]"
  by (simp add: enum_defs path_defs backslash_fs_def)

text \<open>Claim C1 as stated fails on keys that the enumeration produces: with the prefix
  \<^verbatim>\<open>a//\<close> the key \<^verbatim>\<open>a.txt\<close> is joined to \<^verbatim>\<open>a//a.txt\<close>, with two separators between
  prefix and key; and with the empty prefix the key of a file whose name holds a
  backslash is not left unchanged.\<close>

theorem full_s3_key_counterexample:
  "get_files_to_upload demo_fs ''.'' False = Inr [([''a.txt''], ''a.txt'')] \<and>
   full_s3_key ''a//'' ''a.txt'' = ''a//a.txt'' \<and>
   get_files_to_upload backslash_fs ''.'' False =
     Inr [([[CHR ''x'', CHR 0x5C, CHR ''y'']], [CHR ''x'', CHR 0x5C, CHR ''y''])] \<and>
   full_s3_key [] [CHR ''x'', CHR 0x5C, CHR ''y''] = ''x/y'' \<and>
   full_s3_key [] [CHR ''x'', CHR 0x5C, CHR ''y''] \<noteq> [CHR ''x'', CHR 0x5C, CHR ''y'']"
  by (simp add: key_defs demo_fs_flat backslash_fs_flat)

lemma full_s3_key_enumerated:
  assumes "\<not> startswith_sep k" "CHR 0x5C \<notin> set p" "CHR 0x5C \<notin> set k"
  shows "full_s3_key p k = (if p = [] \<or> endswith_sep p then p @ k else p @ ''/'' @ k)"
proof -
  have "CHR 0x5C \<notin> set (if p = [] \<or> endswith_sep p then p @ k else p @ ''/'' @ k)"
    using assms(2,3) by auto
  with assms(1) show ?thesis
    by (simp add: full_s3_key_def os_path_join_def replace_backslash_id)
qed

text \<open>Claim C1, amended: for every relative key produced by enumeration over a
  well-formed file system, and every prefix that ends with at most one separator,
  both without backslashes: an empty prefix yields the key unchanged, and otherwise
  the remote key is the prefix without its trailing separator, one separator, and
  the key, where the part before the separator does not end with one and the key
  does not start with one. \<^verbatim>\<open>resolve("a", "b")\<close> and \<^verbatim>\<open>resolve("a/", "b")\<close> both yield
  \<^verbatim>\<open>"a/b"\<close>.\<close>

theorem full_s3_key_join:
  assumes "wf_fs t" "get_files_to_upload t sp r = Inr files" "(fp, k) \<in> set files"
    "CHR 0x5C \<notin> set p" "CHR 0x5C \<notin> set k"
    "\<not> (endswith_sep p \<and> endswith_sep (butlast p))"
  shows "(p = [] \<longrightarrow> full_s3_key p k = k) \<and>
    (p \<noteq> [] \<longrightarrow>
       (let body = (if endswith_sep p then butlast p else p)
        in full_s3_key p k = body @ ''/'' @ k \<and> \<not> endswith_sep body \<and> \<not> startswith_sep k)) \<and>
    full_s3_key ''a'' ''b'' = ''a/b'' \<and> full_s3_key ''a/'' ''b'' = ''a/b''"
proof -
  from enumerated_key [OF assms(1-3)] have k: "\<not> startswith_sep k" by simp
  note eq = full_s3_key_enumerated [OF k assms(4,5)]
  have empty: "full_s3_key p k = k" if "p = []"
    using that eq by simp
  have one: "full_s3_key p k = (if endswith_sep p then butlast p else p) @ ''/'' @ k \<and>
      \<not> endswith_sep (if endswith_sep p then butlast p else p)"
    if ne: "p \<noteq> []"
  proof (cases "endswith_sep p")
    case True
    then have "p = butlast p @ ''/''"
      using ne by (simp add: endswith_sep_def) (metis append_butlast_last_id)
    then have "p @ k = butlast p @ ''/'' @ k"
      by (metis append.assoc)
    with True assms(6) eq show ?thesis by simp
  next
    case False
    with ne eq show ?thesis by simp
  qed
  have ex: "full_s3_key ''a'' ''b'' = ''a/b''" "full_s3_key ''a/'' ''b'' = ''a/b''"
    by (simp_all add: key_defs)
  from empty one k ex show ?thesis by (simp add: Let_def)
qed

text \<open>The amended claim C1 at the key \<^verbatim>\<open>sub/b.txt\<close> of the example file system, with a
  prefix that ends with a separator, one that does not, and the empty prefix.\<close>

theorem full_s3_key_join_witness:
  "full_s3_key ''data/'' ''sub/b.txt'' = ''data/sub/b.txt'' \<and>
   full_s3_key ''data'' ''sub/b.txt'' = ''data/sub/b.txt'' \<and>
   full_s3_key [] ''sub/b.txt'' = ''sub/b.txt''"
proof -
  have m: "([''sub'', ''b.txt''], ''sub/b.txt'') \<in>
      set [([''a.txt''], ''a.txt''), ([''sub'', ''b.txt''], ''sub/b.txt'')]" by simp
  have b: "CHR 0x5C \<notin> set ''data/''" "CHR 0x5C \<notin> set ''data''" "CHR 0x5C \<notin> set []"
    "CHR 0x5C \<notin> set ''sub/b.txt''" by simp_all
  have s: "\<not> (endswith_sep ''data/'' \<and> endswith_sep (butlast ''data/''))"
    "\<not> (endswith_sep ''data'' \<and> endswith_sep (butlast ''data''))"
    "\<not> (endswith_sep [] \<and> endswith_sep (butlast []))"
    by (simp_all add: endswith_sep_def)
  from full_s3_key_join [OF wf_demo_fs demo_fs_recursive m b(1) b(4) s(1)]
    full_s3_key_join [OF wf_demo_fs demo_fs_recursive m b(2) b(4) s(2)]
    full_s3_key_join [OF wf_demo_fs demo_fs_recursive m b(3) b(4) s(3)]
  show ?thesis by (simp add: endswith_sep_def Let_def)
qed

subsection \<open>Enumeration\<close>

lemma collect_files_all:
  "\<forall>fp \<in> set fps. (\<exists>k. stat t fp = Inr k) \<and> relative_to fp sp = Inr (drop (length sp) fp) \<Longrightarrow>
   collect_files t sp fps err files =
     (case err of
        None \<Rightarrow> Inr (files @ map (\<lambda>fp. (fp, path_str (drop (length sp) fp)))
                          (filter (\<lambda>fp. stat t fp = Inr (Some Regular)) fps))
      | Some e \<Rightarrow> Inl e)"
proof (induction fps arbitrary: files)
  case Nil
  then show ?case by (simp split: option.splits)
next
  case (Cons a fps)
  from Cons.prems obtain k where k: "stat t a = Inr k"
    and rel: "relative_to a sp = Inr (drop (length sp) a)" by auto
  from Cons.prems have rest:
    "\<forall>fp \<in> set fps. (\<exists>k. stat t fp = Inr k) \<and> relative_to fp sp = Inr (drop (length sp) fp)"
    by simp
  show ?case
    by (cases "k = Some Regular") (simp_all add: is_file_def k rel Cons.IH [OF rest] split: option.splits)
qed

lemma path_str_single: "path_str [n] = n"
  by (simp add: path_str_def is_rooted_def)

text \<open>Claim C5, amended: for a directory \<open>D\<close> whose listing succeeds and whose entries
  can all be examined (no \<^verbatim>\<open>stat\<close> of an entry raises), the enumeration without
  recursion returns exactly the entries of \<open>D\<close> that are regular files, each with its
  name as the key (so nothing from a subdirectory), without repetition when the
  listing has none; for a source path that is a regular file it returns the one
  pair of the path and its base name.\<close>

theorem get_files_to_upload_flat_or_file:
  "(stat t (Path s) = Inr (Some Directory) \<and> scandir t (Path s) = Inr entries \<and>
    (\<forall>entry \<in> set entries.
       valid_name (fst entry) \<and> (\<exists>k. stat t (Path s @ [fst entry]) = Inr k)) \<longrightarrow>
      (\<exists>files. get_files_to_upload t s False = Inr files \<and>
         set files = {(Path s @ [n], n) | n.
            n \<in> fst ` set entries \<and> stat t (Path s @ [n]) = Inr (Some Regular)} \<and>
         (distinct (map fst entries) \<longrightarrow> distinct files))) \<and>
   (stat t (Path s) = Inr (Some Regular) \<longrightarrow>
      get_files_to_upload t s r = Inr [(Path s, path_name (Path s))])"
proof (intro conjI impI)
  assume "stat t (Path s) = Inr (Some Regular)"
  then show "get_files_to_upload t s r = Inr [(Path s, path_name (Path s))]"
    by (simp add: get_files_to_upload_def path_exists_def is_file_def Let_def)
next
  let ?D = "Path s"
  assume h: "stat t ?D = Inr (Some Directory) \<and> scandir t ?D = Inr entries \<and>
    (\<forall>entry \<in> set entries. valid_name (fst entry) \<and> (\<exists>k. stat t (?D @ [fst entry]) = Inr k))"
  let ?fps = "map (\<lambda>entry. ?D @ [fst entry]) entries"
  define files where
    "files = map (\<lambda>fp. (fp, path_str (drop (length ?D) fp)))
               (filter (\<lambda>fp. stat t fp = Inr (Some Regular)) ?fps)"
  from h have g: "glob t ?D False = (?fps, None)"
    by (simp add: glob_def is_dir_def wildcard_select_def)
  have ok: "\<forall>fp \<in> set ?fps. (\<exists>k. stat t fp = Inr k) \<and>
      relative_to fp ?D = Inr (drop (length ?D) fp)"
  proof
    fix fp assume "fp \<in> set ?fps"
    then obtain entry where e: "entry \<in> set entries" "fp = ?D @ [fst entry]" by auto
    with h have "valid_name (fst entry)" "\<exists>k. stat t fp = Inr k" by auto
    with e relative_to_child [of "[fst entry]" ?D]
    show "(\<exists>k. stat t fp = Inr k) \<and> relative_to fp ?D = Inr (drop (length ?D) fp)" by simp
  qed
  from h have run: "get_files_to_upload t s False = Inr files"
    by (simp add: get_files_to_upload_def path_exists_def is_file_def g Let_def
        collect_files_all [OF ok] files_def)
  have files_eq: "files = map (\<lambda>n. (?D @ [n], n))
      (filter (\<lambda>n. stat t (?D @ [n]) = Inr (Some Regular)) (map fst entries))"
    by (simp add: files_def filter_map comp_def path_str_single)
  have set_eq: "set files = {(?D @ [n], n) | n.
      n \<in> fst ` set entries \<and> stat t (?D @ [n]) = Inr (Some Regular)}"
    by (auto simp: files_eq)
  have dist: "distinct files" if "distinct (map fst entries)"
  proof -
    from that have "distinct (filter (\<lambda>n. stat t (?D @ [n]) = Inr (Some Regular)) (map fst entries))"
      by simp
    then show ?thesis by (simp add: files_eq distinct_map inj_on_def)
  qed
  from run set_eq dist
  show "\<exists>files. get_files_to_upload t s False = Inr files \<and>
         set files = {(?D @ [n], n) | n.
            n \<in> fst ` set entries \<and> stat t (?D @ [n]) = Inr (Some Regular)} \<and>
         (distinct (map fst entries) \<longrightarrow> distinct files)"
    by blast
qed

text \<open>Claim C5 as stated fails: for the directory \<^verbatim>\<open>q\<close> that can be listed but not
  searched the enumeration raises \<^verbatim>\<open>PermissionError\<close>, and for the directory that
  can be searched but not listed it returns nothing although \<^verbatim>\<open>q/a.txt\<close> is a
  regular file.\<close>

theorem get_files_to_upload_flat_counterexample:
  "stat unsearchable_fs (Path ''q'') = Inr (Some Directory) \<and>
   get_files_to_upload unsearchable_fs ''q'' False = Inl PermissionError \<and>
   stat unlistable_fs (Path ''q'') = Inr (Some Directory) \<and>
   stat unlistable_fs (Path ''q'' @ [''a.txt'']) = Inr (Some Regular) \<and>
   get_files_to_upload unlistable_fs ''q'' False = Inr []"
  by (simp add: enum_defs path_defs unsearchable_fs_def unlistable_fs_def)

text \<open>The amended claim C5 at the example file system: the current directory as the
  directory, \<^verbatim>\<open>sub/b.txt\<close> as the single file.\<close>

theorem get_files_to_upload_flat_or_file_witness:
  "(\<exists>files. get_files_to_upload demo_fs ''.'' False = Inr files \<and>
      set files = {(Path ''.'' @ [n], n) | n.
         n \<in> fst ` set [(''a.txt'', Inr False), (''sub'', Inr True), (''pipe'', Inr False)] \<and>
         stat demo_fs (Path ''.'' @ [n]) = Inr (Some Regular)} \<and> distinct files) \<and>
   get_files_to_upload demo_fs ''sub/b.txt'' True = Inr [([''sub'', ''b.txt''], ''b.txt'')]"
proof -
  have d: "stat demo_fs (Path ''.'') = Inr (Some Directory) \<and>
      scandir demo_fs (Path ''.'') = Inr [(''a.txt'', Inr False), (''sub'', Inr True), (''pipe'', Inr False)] \<and>
      (\<forall>entry \<in> set [(''a.txt'', Inr False), (''sub'', Inr True), (''pipe'', Inr False)].
         valid_name (fst entry) \<and> (\<exists>k. stat demo_fs (Path ''.'' @ [fst entry]) = Inr k))"
    by (simp add: path_defs demo_fs_def valid_name_def)
  have f: "stat demo_fs (Path ''sub/b.txt'') = Inr (Some Regular)"
    by (simp add: path_defs demo_fs_def)
  have n: "path_name (Path ''sub/b.txt'') = ''b.txt''" "Path ''sub/b.txt'' = [''sub'', ''b.txt'']"
    by (simp_all add: path_defs)
  from get_files_to_upload_flat_or_file
    [of demo_fs "''.''" "[(''a.txt'', Inr False), (''sub'', Inr True), (''pipe'', Inr False)]"] d
    get_files_to_upload_flat_or_file [of demo_fs "''sub/b.txt''" _ True] f n
  show ?thesis by simp
qed










subsection \<open>Uploads, validation and the summary\<close>

text \<open>Claim C10: in dry-run mode \<^verbatim>\<open>upload_file\<close> returns \<^verbatim>\<open>True\<close> with no effect at all,
  whatever the world answers for the local path: the file is neither opened nor
  sized, and nothing is sent.\<close>

theorem upload_file_dry_run:
  "upload_file w local_path b s3_key True = (True, []) \<and>
   \<not> list_ex is_file_access (snd (upload_file w local_path b s3_key True)) \<and>
   \<not> list_ex is_network_write (snd (upload_file w local_path b s3_key True))"
  by (simp add: upload_file_def upload_file_body_def)

text \<open>Claim C7: \<^verbatim>\<open>print_summary_report\<close> never raises; with a duration of zero or less
  both rates are 0, otherwise the rate is the byte count divided by the duration and
  the files per second are the file count divided by the duration.\<close>

theorem print_summary_report_total:
  "\<exists>s. print_summary_report w n_files n_bytes start_time = Inr s \<and>
     duration s = time_end w - start_time \<and>
     avg_rate s = (if duration s \<le> 0 then 0 else real n_bytes / duration s) \<and>
     files_per_second s = (if duration s \<le> 0 then 0 else real n_files / duration s)"
  by (simp add: print_summary_report_def py_truediv_def Let_def)

text \<open>Claim C8: \<^verbatim>\<open>validate_aws_credentials\<close> returns \<^verbatim>\<open>False\<close>, and raises nothing, when
  the credentials are absent (\<^verbatim>\<open>NoCredentialsError\<close>), when they are invalid (the error
  codes \<^verbatim>\<open>InvalidAccessKeyId\<close> and \<^verbatim>\<open>SignatureDoesNotMatch\<close>) and when the service
  rejects the call with any other error code; it returns \<^verbatim>\<open>True\<close> exactly when the
  client is created and \<^verbatim>\<open>list_buckets\<close> returns.\<close>

theorem validate_aws_credentials_bool:
  "fst (validate_aws_credentials (w\<lparr>boto3_client := None, list_buckets := Some NoCredentialsError\<rparr>))
     = Inr False \<and>
   fst (validate_aws_credentials
         (w\<lparr>boto3_client := None, list_buckets := Some (ClientError (Some ''InvalidAccessKeyId''))\<rparr>))
     = Inr False \<and>
   fst (validate_aws_credentials
         (w\<lparr>boto3_client := None, list_buckets := Some (ClientError (Some ''SignatureDoesNotMatch''))\<rparr>))
     = Inr False \<and>
   fst (validate_aws_credentials
         (w\<lparr>boto3_client := None, list_buckets := Some (ClientError (Some error_code))\<rparr>))
     = Inr False \<and>
   (fst (validate_aws_credentials w) = Inr True) = (boto3_client w = None \<and> list_buckets w = None)"
proof -
  have h: "credentials_handler e \<noteq> Inr True" for e
    by (cases e rule: credentials_handler.cases) simp_all
  show ?thesis
    using h by (simp add: validate_aws_credentials_def split: option.splits)
qed

subsection \<open>Batched submission\<close>

lemma submitted_append:
  "submitted w a i (xs @ ys) = submitted w a i xs @ submitted w a (i + length xs) ys"
  by (simp add: submitted_def enumerate_append_eq)

lemma submitted_split:
  "submitted w a i xs = submitted w a i (take n xs) @ submitted w a (i + n) (drop n xs)"
proof (cases "n \<le> length xs")
  case True
  then have "length (take n xs) = n" by simp
  with submitted_append [of w a i "take n xs" "drop n xs"] show ?thesis by simp
next
  case False
  then show ?thesis by (simp add: submitted_def)
qed

lemma submit_loop_submitted:
  "0 < bs \<Longrightarrow>
   submit_loop w a bs tasks i acc = acc @ submitted w a i (drop i tasks)"
proof (induction w a bs tasks i acc rule: submit_loop.induct)
  case (1 w a bs tasks i acc)
  show ?case
  proof (cases "i < length tasks")
    case True
    with "1.prems" "1.IH" [OF _ refl refl]
    have "submit_loop w a bs tasks (i + bs)
            (acc @ zip (map (submit w a) (enumerate i (take bs (drop i tasks))))
                    (map fst (take bs (drop i tasks)))) =
          (acc @ submitted w a i (take bs (drop i tasks))) @
            submitted w a (i + bs) (drop (i + bs) tasks)"
      by (simp add: submitted_def)
    moreover have "drop (i + bs) tasks = drop bs (drop i tasks)"
      by (simp add: add.commute)
    ultimately show ?thesis
      using True "1.prems" submitted_split [of w a i "drop i tasks" bs]
      by (subst submit_loop.simps) (simp add: Let_def)
  next
    case False
    then show ?thesis
      by (subst submit_loop.simps) (simp add: submitted_def)
  qed
qed

lemma submit_batches_unbatched:
  "0 < bs \<Longrightarrow> submit_batches w a bs tasks = Inr (submit_unbatched w a tasks)"
  by (simp add: submit_batches_def submit_loop_submitted submit_unbatched_def submitted_def)

text \<open>Claim C9: submitting in batches of 1000 creates the same futures, in the same
  order and for the same files, as submitting every task unbatched, so the run that
  follows (per-task results, success flag, effects and summary) is the same.\<close>

theorem batched_dispatch_unbatched:
  "submit_batches w a batch_size tasks = Inr (submit_unbatched w a tasks) \<and>
   run_pool w n (submit_batches w a batch_size tasks) = run_pool w n (Inr (submit_unbatched w a tasks))"
  by (simp add: submit_batches_unbatched batch_size_def)

subsection \<open>The worker pool\<close>

lemma collect_results_results:
  "tally_results (collect_results w xs t) =
     tally_results t @ map (\<lambda>fp. (snd fp, fut_result (fst fp))) xs"
  by (induction xs arbitrary: t) (simp_all add: Let_def split: sum.splits)

lemma collect_results_success:
  "tally_success (collect_results w xs t) =
     (tally_success t \<and> (\<forall>fp \<in> set xs. fut_result (fst fp) \<and> (\<exists>n. getsize w (snd fp) = Inr n)))"
  by (induction xs arbitrary: t) (auto simp: Let_def split: sum.splits)

lemma print_summary_report_returns: "\<exists>s. print_summary_report w n b st = Inr s"
  by (simp add: print_summary_report_def py_truediv_def Let_def)

lemma run_pool_returns:
  assumes "0 < n"
  shows "\<exists>s. run_pool w n (Inr ftf) =
    (let t = collect_results w (as_completed w ftf)
               \<lparr>tally_success = True, tally_size = 0, tally_results = [], tally_effects = []\<rparr>
     in \<lparr>success = tally_success t,
         effects = concat (map (fut_effects \<circ> fst) ftf) @ tally_effects t,
         preview = [], results = tally_results t, report = Some s\<rparr>)"
proof -
  let ?t = "collect_results w (as_completed w ftf)
     \<lparr>tally_success = True, tally_size = 0, tally_results = [], tally_effects = []\<rparr>"
  obtain s where "print_summary_report w n (tally_size ?t) (time_start w) = Inr s"
    using print_summary_report_returns by blast
  with assms show ?thesis
    by (simp add: run_pool_def Let_def)
qed

lemma run_pool_results:
  assumes "0 < n"
  shows "results (run_pool w n (Inr ftf)) =
     map (\<lambda>fp. (snd fp, fut_result (fst fp))) (as_completed w ftf)"
proof -
  from run_pool_returns [OF assms, of w ftf] obtain s where
    "run_pool w n (Inr ftf) =
      (let t = collect_results w (as_completed w ftf)
                 \<lparr>tally_success = True, tally_size = 0, tally_results = [], tally_effects = []\<rparr>
       in \<lparr>success = tally_success t,
           effects = concat (map (fut_effects \<circ> fst) ftf) @ tally_effects t,
           preview = [], results = tally_results t, report = Some s\<rparr>)" ..
  then show ?thesis by (simp add: Let_def collect_results_results)
qed

lemma run_pool_success:
  assumes "0 < n"
  shows "success (run_pool w n (Inr ftf)) =
     (\<forall>fp \<in> set (as_completed w ftf). fut_result (fst fp) \<and> (\<exists>m. getsize w (snd fp) = Inr m))"
proof -
  from run_pool_returns [OF assms, of w ftf] obtain s where
    "run_pool w n (Inr ftf) =
      (let t = collect_results w (as_completed w ftf)
                 \<lparr>tally_success = True, tally_size = 0, tally_results = [], tally_effects = []\<rparr>
       in \<lparr>success = tally_success t,
           effects = concat (map (fut_effects \<circ> fst) ftf) @ tally_effects t,
           preview = [], results = tally_results t, report = Some s\<rparr>)" ..
  then show ?thesis by (simp add: Let_def collect_results_success)
qed

lemma run_pool_report:
  assumes "0 < n"
  shows "report (run_pool w n (Inr ftf)) \<noteq> None"
proof -
  from run_pool_returns [OF assms, of w ftf] obtain s where
    "run_pool w n (Inr ftf) =
      (let t = collect_results w (as_completed w ftf)
                 \<lparr>tally_success = True, tally_size = 0, tally_results = [], tally_effects = []\<rparr>
       in \<lparr>success = tally_success t,
           effects = concat (map (fut_effects \<circ> fst) ftf) @ tally_effects t,
           preview = [], results = tally_results t, report = Some s\<rparr>)" ..
  then show ?thesis by (simp add: Let_def)
qed

lemma submitted_results:
  "map (\<lambda>fp. (snd fp, fut_result (fst fp))) (submitted w a i tasks) =
     map (\<lambda>(lp, k). (lp, fst (upload_file w lp (bucket a) k (dry_run a)))) tasks"
  by (induction tasks arbitrary: i)
     (auto simp: submitted_def enumerate_simps submit_def split: prod.splits)

lemma upload_files_live:
  assumes "session_client w = None" "source a = Some src"
    "get_files_to_upload (file_system w) src (recursive a) = Inr files" "files \<noteq> []"
    "\<not> dry_run a"
  shows "upload_files w a =
    run_pool w (length files) (Inr (submitted w a 0 (upload_tasks a files)))"
  using assms
  by (simp add: upload_files_def submit_batches_unbatched batch_size_def submit_unbatched_def
      submitted_def)

text \<open>Claim C3: in a live run whose futures are each handed back once, if the upload of
  one task fails (\<^verbatim>\<open>upload_file\<close> returns \<^verbatim>\<open>False\<close>, which it does exactly when its body
  raised), then \<^verbatim>\<open>upload_files\<close> returns \<^verbatim>\<open>False\<close>, every task is still completed and
  reported with the result of its own upload, and the summary report is printed:
  the run is not aborted.\<close>

theorem failed_task_does_not_abort:
  assumes "session_client w = None" "source a = Some src"
    "get_files_to_upload (file_system w) src (recursive a) = Inr files"
    "\<not> dry_run a"
    "\<forall>xs. mset (as_completed w xs) = mset xs"
    "(lp, k) \<in> set (upload_tasks a files)"
    "\<not> fst (upload_file w lp (bucket a) k False)"
  shows "\<not> success (upload_files w a) \<and>
    mset (results (upload_files w a)) =
      mset (map (\<lambda>(lp, k). (lp, fst (upload_file w lp (bucket a) k False))) (upload_tasks a files)) \<and>
    report (upload_files w a) \<noteq> None"
proof -
  let ?tasks = "upload_tasks a files"
  let ?ftf = "submitted w a 0 ?tasks"
  let ?out = "\<lambda>fp. (snd fp, fut_result (fst fp))"
  from assms(6) have ne: "files \<noteq> []" by (auto simp: upload_tasks_def)
  then have pos: "0 < length files" by simp
  have live: "upload_files w a = run_pool w (length files) (Inr ?ftf)"
    using assms(1-3) ne assms(4) by (rule upload_files_live)
  have perm: "mset (as_completed w ?ftf) = mset ?ftf" using assms(5) by blast
  have outs: "map ?out ?ftf =
      map (\<lambda>(lp, k). (lp, fst (upload_file w lp (bucket a) k False))) ?tasks"
    using submitted_results [of w a 0 ?tasks] assms(4) by simp
  have "mset (results (upload_files w a)) = mset (map ?out (as_completed w ?ftf))"
    by (simp add: live run_pool_results [OF pos])
  also have "\<dots> = image_mset ?out (mset ?ftf)" by (simp add: perm)
  also have "\<dots> = mset (map ?out ?ftf)" by simp
  finally have res: "mset (results (upload_files w a)) =
      mset (map (\<lambda>(lp, k). (lp, fst (upload_file w lp (bucket a) k False))) ?tasks)"
    by (simp only: outs)
  from assms(6,7) have "(lp, False) \<in> set (map ?out ?ftf)"
    by (force simp: outs)
  then obtain fp where fp: "fp \<in> set ?ftf" "\<not> fut_result (fst fp)" by auto
  from fp(1) perm have "fp \<in> set (as_completed w ?ftf)"
    by (metis set_mset_mset)
  with fp(2) have fail: "\<not> success (upload_files w a)"
    by (auto simp: live run_pool_success [OF pos])
  from fail res run_pool_report [OF pos, of w ?ftf] show ?thesis
    by (simp add: live)
qed

lemmas demo_defs = demo_world_def demo_args_def

text \<open>Claim C3 in the example world: \<^verbatim>\<open>a.txt\<close> fails, \<^verbatim>\<open>sub/b.txt\<close> is uploaded all the
  same.\<close>

theorem failed_task_does_not_abort_witness:
  "\<not> success (upload_files demo_world demo_args) \<and>
   mset (results (upload_files demo_world demo_args)) =
     {#([''a.txt''], False), ([''sub'', ''b.txt''], True)#} \<and>
   report (upload_files demo_world demo_args) \<noteq> None"
proof -
  have files: "get_files_to_upload (file_system demo_world) ''.'' (recursive demo_args) =
      Inr [([''a.txt''], ''a.txt''), ([''sub'', ''b.txt''], ''sub/b.txt'')]"
    by (simp add: demo_defs demo_fs_recursive)
  have task: "([''a.txt''], ''data/a.txt'') \<in>
      set (upload_tasks demo_args [([''a.txt''], ''a.txt''), ([''sub'', ''b.txt''], ''sub/b.txt'')])"
    by (simp add: upload_tasks_def demo_defs key_defs)
  have fails: "\<not> fst (upload_file demo_world [''a.txt''] (bucket demo_args) ''data/a.txt'' False)"
    by (simp add: upload_file_def upload_file_body_def demo_defs)
  have order: "\<forall>xs. mset (as_completed demo_world xs) = mset xs"
    by (simp add: demo_defs)
  have "session_client demo_world = None" "source demo_args = Some ''.''" "\<not> dry_run demo_args"
    by (simp_all add: demo_defs)
  from failed_task_does_not_abort [OF this(1,2) files this(3) order task fails]
  show ?thesis
    by (simp add: upload_tasks_def upload_file_def upload_file_body_def demo_defs key_defs)
qed








end
